theory Spec2Isabelle
  imports Main "HOL-Library.Word"
begin

section \<open>JavaScript strings, whitespace and \<open>String.prototype.trim\<close>\<close>

text \<open>
  A JavaScript string is a sequence of 16-bit code units. The regular expression of
  \<open>isValidEmail\<close> has no \<open>u\<close> flag, so it works on code units, and so does \<open>trim\<close>.
  String literals of the scripts are ASCII; \<open>js\<close> maps such a literal to its code units.
\<close>

type_synonym jschar = "16 word"
type_synonym jsstring = "jschar list"

definition js :: "string \<Rightarrow> jsstring" where
  "js s = map of_char s"

text \<open>
  The code units matched by \<open>\s\<close> and stripped by \<open>trim\<close>: ECMAScript's WhiteSpace
  (TAB, VT, FF, SP, NBSP, ZWNBSP and the other space separators) and LineTerminator
  (LF, CR, LS, PS).
\<close>

definition is_js_whitespace :: "jschar \<Rightarrow> bool" where
  "is_js_whitespace c \<longleftrightarrow>
     c = 0x0009 \<or> c = 0x000A \<or> c = 0x000B \<or> c = 0x000C \<or> c = 0x000D \<or>
     c = 0x0020 \<or> c = 0x00A0 \<or> c = 0x1680 \<or> (0x2000 \<le> c \<and> c \<le> 0x200A) \<or>
     c = 0x2028 \<or> c = 0x2029 \<or> c = 0x202F \<or> c = 0x205F \<or> c = 0x3000 \<or>
     c = 0xFEFF"

definition js_trim :: "jsstring \<Rightarrow> jsstring" where
  "js_trim s = rev (dropWhile is_js_whitespace (rev (dropWhile is_js_whitespace s)))"

section \<open>The regular expression of \<open>isValidEmail\<close>\<close>

text \<open>
  The fragment of regular expressions that \<open>/^[^\s@]+@[^\s@]+\.[^\s@]+$/\<close> uses: a
  sequence of terms, each a single atom or an atom under \<open>+\<close>; an atom is a literal
  code unit or a negated character class whose members are \<open>\s\<close> or a literal.
\<close>

datatype class_item = ClassSpace | ClassChar jschar

datatype rx_atom = Lit jschar | NegClass "class_item list"

datatype rx_term = Single rx_atom | OneOrMore rx_atom

fun item_matches :: "class_item \<Rightarrow> jschar \<Rightarrow> bool" where
  "item_matches ClassSpace x = is_js_whitespace x"
| "item_matches (ClassChar c) x = (x = c)"

fun atom_matches :: "rx_atom \<Rightarrow> jschar \<Rightarrow> bool" where
  "atom_matches (Lit c) x = (x = c)"
| "atom_matches (NegClass items) x = (\<not> list_ex (\<lambda>i. item_matches i x) items)"

text \<open>
  A backtracking matcher for a term sequence that is anchored at both ends: the
  sequence has to consume the input from its first code unit (\<open>^\<close>) to its last
  (\<open>$\<close>, without the \<open>m\<close> flag). Under \<open>+\<close> the matcher first tries to consume
  more and then falls back to the rest of the sequence.
\<close>

fun rx_match :: "rx_term list \<Rightarrow> jsstring \<Rightarrow> bool" where
  "rx_match [] s = (s = [])"
| "rx_match (Single a # r) [] = False"
| "rx_match (Single a # r) (x # xs) = (atom_matches a x \<and> rx_match r xs)"
| "rx_match (OneOrMore a # r) [] = False"
| "rx_match (OneOrMore a # r) (x # xs) =
     (atom_matches a x \<and> (rx_match (OneOrMore a # r) xs \<or> rx_match r xs))"

definition at_sign :: jschar where
  "at_sign = 0x40"

definition full_stop :: jschar where
  "full_stop = 0x2E"

text \<open>\<open>src/js/main.js\<close>, \<open>isValidEmail\<close>.\<close>

definition emailRegex :: "rx_term list" where
  "emailRegex =
     [OneOrMore (NegClass [ClassSpace, ClassChar at_sign]), Single (Lit at_sign),
      OneOrMore (NegClass [ClassSpace, ClassChar at_sign]), Single (Lit full_stop),
      OneOrMore (NegClass [ClassSpace, ClassChar at_sign])]"

definition isValidEmail :: "jsstring \<Rightarrow> bool" where
  "isValidEmail email = rx_match emailRegex email"

text \<open>\<open>src/scripts/main.js\<close>, \<open>isValidEmail\<close>.\<close>

definition emailRegex_scripts :: "rx_term list" where
  "emailRegex_scripts =
     [OneOrMore (NegClass [ClassSpace, ClassChar at_sign]), Single (Lit at_sign),
      OneOrMore (NegClass [ClassSpace, ClassChar at_sign]), Single (Lit full_stop),
      OneOrMore (NegClass [ClassSpace, ClassChar at_sign])]"

definition isValidEmail_scripts :: "jsstring \<Rightarrow> bool" where
  "isValidEmail_scripts email = rx_match emailRegex_scripts email"

text \<open>
  The shape \<open>local-part@domain.tld\<close> in the words of the specification: no whitespace,
  an \<open>@\<close> at some position \<open>i\<close> with a nonempty local part before it, and a \<open>.\<close> at
  some position \<open>j\<close> after the \<open>@\<close> with a nonempty domain between them and a nonempty
  top-level segment after it.
\<close>

definition at_then_dot :: "jsstring \<Rightarrow> bool" where
  "at_then_dot s \<longleftrightarrow>
     list_ex (\<lambda>i. list_ex (\<lambda>j. 0 < i \<and> s ! i = at_sign \<and> i + 1 < j \<and>
                                s ! j = full_stop \<and> j + 1 < length s)
                [0..<length s])
       [0..<length s]"

definition spec_shape :: "jsstring \<Rightarrow> bool" where
  "spec_shape s \<longleftrightarrow> \<not> list_ex is_js_whitespace s \<and> at_then_dot s"

text \<open>The same shape with exactly one \<open>@\<close>.\<close>

definition spec_shape_one_at :: "jsstring \<Rightarrow> bool" where
  "spec_shape_one_at s \<longleftrightarrow> spec_shape s \<and> count_list s at_sign = 1"

section \<open>The DOM's \<open>classList\<close>\<close>

text \<open>
  A \<open>classList\<close> is an ordered set of tokens: \<open>add\<close> appends a token that is not yet
  there, \<open>remove\<close> deletes it.
\<close>

type_synonym class_list = "jsstring list"

definition classList_add :: "jsstring \<Rightarrow> class_list \<Rightarrow> class_list" where
  "classList_add c cl = (if c \<in> set cl then cl else cl @ [c])"

definition classList_remove :: "jsstring \<Rightarrow> class_list \<Rightarrow> class_list" where
  "classList_remove c cl = removeAll c cl"

definition classList_contains :: "jsstring \<Rightarrow> class_list \<Rightarrow> bool" where
  "classList_contains c cl \<longleftrightarrow> c \<in> set cl"

section \<open>The mobile menu\<close>

text \<open>
  The state the menu code reads and writes: the flag \<open>isMenuOpen\<close>, the class lists of
  \<open>#nav-toggle\<close> and \<open>#nav-mobile\<close> (\<open>None\<close> where \<open>getElementById\<close> returned
  \<open>null\<close>), the \<open>overflow\<close> style of the body, and whether \<open>setupMobileMenu\<close> has
  attached its listeners.
\<close>

record menu_page =
  isMenuOpen :: bool
  navToggle :: "class_list option"
  navMobile :: "class_list option"
  body_overflow :: jsstring
  menu_listeners :: bool

text \<open>
  A call either returns or throws a \<open>TypeError\<close> (a property read on \<open>null\<close>); in
  both cases the writes made so far stay.
\<close>

datatype 'a completion = Returned 'a | Thrown 'a

fun state_of :: "'a completion \<Rightarrow> 'a" where
  "state_of (Returned s) = s"
| "state_of (Thrown s) = s"

definition openMenu :: "menu_page \<Rightarrow> menu_page completion" where
  "openMenu m =
     (let m1 = m\<lparr>isMenuOpen := True\<rparr> in
      case navToggle m1 of
        None \<Rightarrow> Thrown m1
      | Some t \<Rightarrow>
          (let m2 = m1\<lparr>navToggle := Some (classList_add (js ''active'') t)\<rparr> in
           case navMobile m2 of
             None \<Rightarrow> Thrown m2
           | Some n \<Rightarrow>
               Returned (m2\<lparr>navMobile := Some (classList_add (js ''active'') n),
                               body_overflow := js ''hidden''\<rparr>)))"

definition closeMenu :: "menu_page \<Rightarrow> menu_page completion" where
  "closeMenu m =
     (let m1 = m\<lparr>isMenuOpen := False\<rparr> in
      case navToggle m1 of
        None \<Rightarrow> Thrown m1
      | Some t \<Rightarrow>
          (let m2 = m1\<lparr>navToggle := Some (classList_remove (js ''active'') t)\<rparr> in
           case navMobile m2 of
             None \<Rightarrow> Thrown m2
           | Some n \<Rightarrow>
               Returned (m2\<lparr>navMobile := Some (classList_remove (js ''active'') n),
                               body_overflow := []\<rparr>)))"

definition toggleMenu :: "menu_page \<Rightarrow> menu_page completion" where
  "toggleMenu m = (if isMenuOpen m then closeMenu m else openMenu m)"

text \<open>
  \<open>setupMobileMenu\<close> returns at once when either element is missing, and attaches the
  four listeners otherwise.
\<close>

definition setupMobileMenu :: "menu_page \<Rightarrow> menu_page" where
  "setupMobileMenu m =
     (if navToggle m = None \<or> navMobile m = None then m else m\<lparr>menu_listeners := True\<rparr>)"

text \<open>
  The page as the script finds it: \<open>isMenuOpen\<close> starts \<open>false\<close>; the class lists and the
  body style come from the document, which is not part of the scripts.
\<close>

definition initial_menu :: "class_list option \<Rightarrow> class_list option \<Rightarrow> jsstring \<Rightarrow> menu_page" where
  "initial_menu t n ov =
     setupMobileMenu \<lparr>isMenuOpen = False, navToggle = t, navMobile = n, body_overflow = ov,
                      menu_listeners = False\<rparr>"

text \<open>
  The events the listeners are attached to: a click on the toggle, a click on a mobile
  menu link, a \<open>keydown\<close> with its \<open>key\<close>, and a \<open>resize\<close> observed with the window's
  \<open>innerWidth\<close>.
\<close>

datatype menu_event = ToggleClick | LinkClick | KeyDown jsstring | Resize int

definition menu_handler :: "menu_event \<Rightarrow> menu_page \<Rightarrow> menu_page completion" where
  "menu_handler ev m =
     (if \<not> menu_listeners m then Returned m
      else case ev of
        ToggleClick \<Rightarrow> toggleMenu m
      | LinkClick \<Rightarrow> closeMenu m
      | KeyDown k \<Rightarrow> (if k = js ''Escape'' \<and> isMenuOpen m then closeMenu m else Returned m)
      | Resize w \<Rightarrow> (if w \<ge> 768 \<and> isMenuOpen m then closeMenu m else Returned m))"

fun run_events :: "menu_event list \<Rightarrow> menu_page \<Rightarrow> menu_page" where
  "run_events [] m = m"
| "run_events (ev # evs) m = run_events evs (state_of (menu_handler ev m))"

definition has_active :: "class_list option \<Rightarrow> bool" where
  "has_active e = (case e of None \<Rightarrow> False | Some cl \<Rightarrow> classList_contains (js ''active'') cl)"

definition menu_invariant :: "menu_page \<Rightarrow> bool" where
  "menu_invariant m \<longleftrightarrow> (isMenuOpen m \<longleftrightarrow> has_active (navToggle m) \<and> has_active (navMobile m))"

section \<open>The reveal animator\<close>

text \<open>
  The \<open>.reveal\<close> elements are numbered by their position in \<open>revealElements\<close>. The
  state is the class list of each and the observer's list of observation targets.
\<close>

record reveal_page =
  reveal_classes :: "class_list list"
  observed :: "nat list"

record intersection_entry =
  target :: nat
  isIntersecting :: bool

definition observe :: "nat \<Rightarrow> reveal_page \<Rightarrow> reveal_page" where
  "observe el s = (if el \<in> set (observed s) then s else s\<lparr>observed := observed s @ [el]\<rparr>)"

definition unobserve :: "nat \<Rightarrow> reveal_page \<Rightarrow> reveal_page" where
  "unobserve el s = s\<lparr>observed := removeAll el (observed s)\<rparr>"

definition add_visible :: "nat \<Rightarrow> reveal_page \<Rightarrow> reveal_page" where
  "add_visible el s =
     s\<lparr>reveal_classes :=
         (reveal_classes s)[el := classList_add (js ''visible'') (reveal_classes s ! el)]\<rparr>"

text \<open>
  \<open>setupRevealAnimations\<close>, given whether \<open>IntersectionObserver\<close> is in \<open>window\<close> and the
  class lists of the \<open>.reveal\<close> elements.
\<close>

definition setupRevealAnimations :: "bool \<Rightarrow> class_list list \<Rightarrow> reveal_page" where
  "setupRevealAnimations supported els =
     (if length els = 0 then \<lparr>reveal_classes = els, observed = []\<rparr>
      else if \<not> supported then
        \<lparr>reveal_classes = map (classList_add (js ''visible'')) els, observed = []\<rparr>
      else fold observe [0..<length els] \<lparr>reveal_classes = els, observed = []\<rparr>)"

text \<open>The observer's callback, run on a batch of entries.\<close>

fun observer_callback :: "intersection_entry list \<Rightarrow> reveal_page \<Rightarrow> reveal_page" where
  "observer_callback [] s = s"
| "observer_callback (e # es) s =
     observer_callback es
       (if isIntersecting e then unobserve (target e) (add_visible (target e) s) else s)"

text \<open>
  One step of the animator: the browser delivers a batch of entries whose targets
  are \<open>.reveal\<close> elements under observation when the batch starts.
\<close>

inductive reveal_step :: "reveal_page \<Rightarrow> reveal_page \<Rightarrow> bool" where
  deliver: "list_all (\<lambda>e. target e \<in> set (observed s) \<and> target e < length (reveal_classes s)) es
    \<Longrightarrow> reveal_step s (observer_callback es s)"

definition is_visible :: "nat \<Rightarrow> reveal_page \<Rightarrow> bool" where
  "is_visible el s \<longleftrightarrow> classList_contains (js ''visible'') (reveal_classes s ! el)"

text \<open>A run of the animator, and the steps of a run at which an element gets the marker.\<close>

fun reveal_run :: "reveal_page list \<Rightarrow> bool" where
  "reveal_run [] = True"
| "reveal_run [s] = True"
| "reveal_run (s # s' # ss) = (reveal_step s s' \<and> reveal_run (s' # ss))"

fun markings :: "nat \<Rightarrow> reveal_page list \<Rightarrow> nat" where
  "markings el [] = 0"
| "markings el [s] = 0"
| "markings el (s # s' # ss) =
     (if \<not> is_visible el s \<and> is_visible el s' then 1 else 0) + markings el (s' # ss)"

section \<open>The signup form\<close>

text \<open>
  The state the form code reads and writes: the value of \<open>.signup-input\<close>, the text and
  the \<open>disabled\<close> flag of \<open>.signup-button\<close>, the \<open>#signup-message\<close> element (\<open>None\<close>
  where \<open>getElementById\<close> returned \<open>null\<close>), the callbacks registered with
  \<open>setTimeout\<close> and not yet run, and the \<open>fetch\<close> requests not yet settled. A
  pending request is kept with the \<open>originalText\<close> its promise chain closes over. The
  listeners read the input and the button without a guard, so the state has both.
\<close>

record message_area =
  textContent :: jsstring
  className :: jsstring

text \<open>
  The two timer callbacks of the scripts: the one that clears the message, and the
  one of \<open>src/js/main.js\<close> that ends the simulated submission; it closes over
  \<open>originalText\<close>.
\<close>

datatype timer_callback = ClearMessage | SimulatedResponse jsstring

text \<open>
  The value handed to \<open>JSON.stringify\<close>; the request body is its JSON text.
\<close>

datatype json = JString jsstring | JObject "(jsstring \<times> json) list"

record fetch_request =
  url :: jsstring
  http_method :: jsstring
  headers :: "(jsstring \<times> jsstring) list"
  body :: json

record page =
  input_value :: jsstring
  button_text :: jsstring
  button_disabled :: bool
  signupMessage :: "message_area option"
  timers :: "(nat \<times> timer_callback) list"
  requests :: "(fetch_request \<times> jsstring) list"

definition showMessage :: "jsstring \<Rightarrow> jsstring \<Rightarrow> page \<Rightarrow> page" where
  "showMessage message type p =
     (case signupMessage p of
        None \<Rightarrow> p
      | Some _ \<Rightarrow>
          p\<lparr>signupMessage :=
               Some \<lparr>textContent = message, className = js ''signup-message '' @ type\<rparr>,
            timers := timers p @ [(5000, ClearMessage)]\<rparr>)"

text \<open>
  The \<open>submit\<close> listener of \<open>src/js/main.js\<close>. Its call of \<open>preventDefault\<close> writes
  nothing of this state.
\<close>

definition submit_js :: "page \<Rightarrow> page" where
  "submit_js p =
     (let email = js_trim (input_value p) in
      if \<not> isValidEmail email then
        showMessage (js ''Please enter a valid email address.'') (js ''error'') p
      else
        (let originalText = button_text p;
             p1 = p\<lparr>button_text := js ''Sending...''\<rparr>;
             p2 = p1\<lparr>button_disabled := True\<rparr>
         in p2\<lparr>timers := timers p2 @ [(1000, SimulatedResponse originalText)]\<rparr>))"

definition FORMSPREE_ENDPOINT :: jsstring where
  "FORMSPREE_ENDPOINT = js ''https://formspree.io/f/xeegzwzw''"

text \<open>The \<open>submit\<close> listener of \<open>src/scripts/main.js\<close>.\<close>

definition submit_scripts :: "page \<Rightarrow> page" where
  "submit_scripts p =
     (let email = js_trim (input_value p) in
      if \<not> isValidEmail_scripts email then
        showMessage (js ''Please enter a valid email address.'') (js ''error'') p
      else
        (let originalText = button_text p;
             p1 = p\<lparr>button_text := js ''Signing up...''\<rparr>;
             p2 = p1\<lparr>button_disabled := True\<rparr>;
             request =
               \<lparr>url = FORMSPREE_ENDPOINT, http_method = js ''POST'',
                headers = [(js ''Content-Type'', js ''application/json''),
                           (js ''Accept'', js ''application/json'')],
                body = JObject [(js ''email'', JString email)]\<rparr>
         in p2\<lparr>requests := requests p2 @ [(request, originalText)]\<rparr>))"

text \<open>What a timer callback does when it runs.\<close>

fun run_callback :: "timer_callback \<Rightarrow> page \<Rightarrow> page" where
  "run_callback ClearMessage p =
     (case signupMessage p of
        None \<Rightarrow> p
      | Some _ \<Rightarrow>
          p\<lparr>signupMessage := Some \<lparr>textContent = [], className = js ''signup-message''\<rparr>\<rparr>)"
| "run_callback (SimulatedResponse originalText) p =
     (let p1 = showMessage (js ''Thanks! We'll be in touch soon.'') (js ''success'') p;
          p2 = p1\<lparr>input_value := []\<rparr>;
          p3 = p2\<lparr>button_text := originalText\<rparr>
      in p3\<lparr>button_disabled := False\<rparr>)"

text \<open>
  How a \<open>fetch\<close> can end: the promise rejects (a network error), or it resolves with a
  response that has an \<open>ok\<close> flag and a body that \<open>response.json()\<close> parses or not.
\<close>

datatype fetch_outcome = NetworkError | Response bool bool

text \<open>
  The promise chain of \<open>src/scripts/main.js\<close>: the first \<open>then\<close> returns
  \<open>response.json()\<close> when the response is \<open>ok\<close> and throws otherwise; the second
  \<open>then\<close> runs when that promise is fulfilled; \<open>catch\<close> runs on any rejection;
  \<open>finally\<close> runs always.
\<close>

definition chain_fulfilled :: "fetch_outcome \<Rightarrow> bool" where
  "chain_fulfilled outcome =
     (case outcome of NetworkError \<Rightarrow> False | Response ok parsed \<Rightarrow> ok \<and> parsed)"

definition fetch_settled :: "fetch_outcome \<Rightarrow> jsstring \<Rightarrow> page \<Rightarrow> page" where
  "fetch_settled outcome originalText p =
     (let p1 =
            (if chain_fulfilled outcome then
               (showMessage (js ''You're on the list!'') (js ''success'') p)\<lparr>input_value := []\<rparr>
             else showMessage (js ''Something went wrong. Please try again.'') (js ''error'') p);
          p2 = p1\<lparr>button_text := originalText\<rparr>
      in p2\<lparr>button_disabled := False\<rparr>)"

text \<open>The event loop runs the \<open>i\<close>-th pending timer, or settles the \<open>i\<close>-th pending request.\<close>

definition fire_timer :: "nat \<Rightarrow> page \<Rightarrow> page" where
  "fire_timer i p =
     (if i < length (timers p) then
        run_callback (snd (timers p ! i)) (p\<lparr>timers := take i (timers p) @ drop (Suc i) (timers p)\<rparr>)
      else p)"

definition settle_request :: "nat \<Rightarrow> fetch_outcome \<Rightarrow> page \<Rightarrow> page" where
  "settle_request i outcome p =
     (if i < length (requests p) then
        fetch_settled outcome (snd (requests p ! i))
          (p\<lparr>requests := take i (requests p) @ drop (Suc i) (requests p)\<rparr>)
      else p)"

text \<open>Whether a page shows a message with the given text and kind.\<close>

definition shows_message :: "jsstring \<Rightarrow> jsstring \<Rightarrow> page \<Rightarrow> bool" where
  "shows_message message type p \<longleftrightarrow>
     signupMessage p = Some \<lparr>textContent = message, className = js ''signup-message '' @ type\<rparr>"

text \<open>Two pages for the scenarios: one with the message area, one without.\<close>

definition page_with_message :: "jsstring \<Rightarrow> page" where
  "page_with_message v =
     \<lparr>input_value = v, button_text = js ''Notify Me'', button_disabled = False,
      signupMessage = Some \<lparr>textContent = [], className = js ''signup-message''\<rparr>,
      timers = [], requests = []\<rparr>"

definition page_without_message :: "jsstring \<Rightarrow> page" where
  "page_without_message v =
     \<lparr>input_value = v, button_text = js ''Notify Me'', button_disabled = False,
      signupMessage = None, timers = [], requests = []\<rparr>"

section \<open>Notions used in the proofs\<close>

text \<open>A code unit that \<open>[^\s@]\<close> accepts.\<close>

definition plain :: "jschar \<Rightarrow> bool" where
  "plain c \<longleftrightarrow> \<not> is_js_whitespace c \<and> c \<noteq> at_sign"

text \<open>Both menu elements were found.\<close>

definition both_present :: "menu_page \<Rightarrow> bool" where
  "both_present m \<longleftrightarrow> navToggle m \<noteq> None \<and> navMobile m \<noteq> None"

text \<open>A page with two \<open>.reveal\<close> elements, and a batch in which the second one enters.\<close>

definition two_reveals :: reveal_page where
  "two_reveals = setupRevealAnimations True [[js ''reveal''], [js ''reveal'']]"

definition second_enters :: "intersection_entry list" where
  "second_enters = [\<lparr>target = 0, isIntersecting = False\<rparr>, \<lparr>target = 1, isIntersecting = True\<rparr>]"

text \<open>The request that the listener of \<open>src/scripts/main.js\<close> sends for an email.\<close>

definition signup_request :: "jsstring \<Rightarrow> fetch_request" where
  "signup_request email =
     \<lparr>url = FORMSPREE_ENDPOINT, http_method = js ''POST'',
      headers = [(js ''Content-Type'', js ''application/json''),
                 (js ''Accept'', js ''application/json'')],
      body = JObject [(js ''email'', JString email)]\<rparr>"

section \<open>Validation\<close>

subsection \<open>What the anchored matcher accepts\<close>

lemma rx_plus:
  "rx_match (OneOrMore a # r) s \<longleftrightarrow>
     (\<exists>u v. s = u @ v \<and> u \<noteq> [] \<and> list_all (atom_matches a) u \<and> rx_match r v)"
proof (induction s)
  case Nil
  then show ?case by simp
next
  case (Cons x xs)
  show ?case
  proof
    assume "rx_match (OneOrMore a # r) (x # xs)"
    then have ax: "atom_matches a x" and d: "rx_match (OneOrMore a # r) xs \<or> rx_match r xs"
      by simp_all
    from d show "\<exists>u v. x # xs = u @ v \<and> u \<noteq> [] \<and> list_all (atom_matches a) u \<and> rx_match r v"
    proof
      assume "rx_match (OneOrMore a # r) xs"
      with Cons.IH obtain u v where "xs = u @ v" "list_all (atom_matches a) u" "rx_match r v"
        by blast
      with ax have "x # xs = (x # u) @ v \<and> x # u \<noteq> [] \<and> list_all (atom_matches a) (x # u) \<and> rx_match r v"
        by simp
      then show ?thesis by blast
    next
      assume "rx_match r xs"
      with ax have "x # xs = [x] @ xs \<and> [x] \<noteq> [] \<and> list_all (atom_matches a) [x] \<and> rx_match r xs"
        by simp
      then show ?thesis by blast
    qed
  next
    assume "\<exists>u v. x # xs = u @ v \<and> u \<noteq> [] \<and> list_all (atom_matches a) u \<and> rx_match r v"
    then obtain u v where uv: "x # xs = u @ v" "u \<noteq> []" "list_all (atom_matches a) u" "rx_match r v"
      by blast
    then obtain u' where u: "u = x # u'" by (cases u) auto
    with uv have ax: "atom_matches a x" and xs: "xs = u' @ v" and all: "list_all (atom_matches a) u'"
      by simp_all
    show "rx_match (OneOrMore a # r) (x # xs)"
    proof (cases "u' = []")
      case True
      with xs uv ax show ?thesis by simp
    next
      case False
      with xs all uv have "rx_match (OneOrMore a # r) xs" using Cons.IH by blast
      with ax show ?thesis by simp
    qed
  qed
qed

lemma rx_lit: "rx_match (Single (Lit c) # r) s \<longleftrightarrow> (\<exists>v. s = c # v \<and> rx_match r v)"
  by (cases s) auto

lemma atom_plain: "atom_matches (NegClass [ClassSpace, ClassChar at_sign]) = plain"
  by (rule ext) (simp add: plain_def)

lemma at_not_space: "\<not> is_js_whitespace at_sign"
  by (simp add: is_js_whitespace_def at_sign_def)

lemma stop_not_space: "\<not> is_js_whitespace full_stop"
  by (simp add: is_js_whitespace_def full_stop_def)

lemma stop_not_at: "full_stop \<noteq> at_sign"
  by (simp add: at_sign_def full_stop_def)

lemma isValidEmail_split:
  "isValidEmail s \<longleftrightarrow>
     (\<exists>u v w. s = u @ at_sign # v @ full_stop # w \<and> u \<noteq> [] \<and> v \<noteq> [] \<and> w \<noteq> [] \<and>
        list_all plain u \<and> list_all plain v \<and> list_all plain w)"
  unfolding isValidEmail_def emailRegex_def rx_plus rx_lit atom_plain
  by (simp) blast

lemma plain_no_space: "list_all plain u \<Longrightarrow> \<not> list_ex is_js_whitespace u"
  by (induction u) (auto simp: plain_def)

lemma plain_no_at: "list_all plain u \<Longrightarrow> count_list u at_sign = 0"
  by (induction u) (auto simp: plain_def)

lemma plain_iff: "list_all plain u \<longleftrightarrow> \<not> list_ex is_js_whitespace u \<and> count_list u at_sign = 0"
  by (induction u) (auto simp: plain_def)

lemma split_shape:
  assumes s: "s = u @ at_sign # v @ full_stop # w"
    and ne: "u \<noteq> []" "v \<noteq> []" "w \<noteq> []"
    and pl: "list_all plain u" "list_all plain v" "list_all plain w"
  shows "spec_shape_one_at s"
proof -
  have ws: "\<not> list_ex is_js_whitespace s"
    using pl s by (simp add: plain_iff at_not_space stop_not_space)
  have cnt: "count_list s at_sign = 1"
    using pl s by (simp add: plain_iff stop_not_at)
  let ?i = "length u" and ?j = "length u + 1 + length v"
  have i: "?i \<in> set [0..<length s]" and j: "?j \<in> set [0..<length s]"
    unfolding set_upt s by simp_all
  have lw: "0 < length w" using ne by simp
  have "0 < ?i" "s ! ?i = at_sign" "?i + 1 < ?j" "s ! ?j = full_stop"
    using s ne by (simp_all add: nth_append)
  moreover have "?j + 1 < length s"
    using lw unfolding s by simp
  ultimately have "0 < ?i \<and> s ! ?i = at_sign \<and> ?i + 1 < ?j \<and> s ! ?j = full_stop \<and>
      ?j + 1 < length s"
    by blast
  with i j have "at_then_dot s"
    unfolding at_then_dot_def list_ex_iff by blast
  with ws cnt show ?thesis by (simp add: spec_shape_one_at_def spec_shape_def)
qed

lemma shape_split:
  assumes sh: "spec_shape_one_at s"
  shows "\<exists>u v w. s = u @ at_sign # v @ full_stop # w \<and> u \<noteq> [] \<and> v \<noteq> [] \<and> w \<noteq> [] \<and>
        list_all plain u \<and> list_all plain v \<and> list_all plain w"
proof -
  from sh have ws: "\<not> list_ex is_js_whitespace s" and cnt: "count_list s at_sign = 1"
    and atd: "at_then_dot s"
    by (simp_all add: spec_shape_one_at_def spec_shape_def)
  from atd obtain i j where ij: "0 < i" "s ! i = at_sign" "i + 1 < j" "s ! j = full_stop"
      "j + 1 < length s"
    unfolding at_then_dot_def list_ex_iff by blast
  define t where "t = drop (Suc i) s"
  define u where "u = take i s"
  define v where "v = take (j - Suc i) t"
  define w where "w = drop (Suc (j - Suc i)) t"
  have il: "i < length s" using ij by simp
  have s1: "s = u @ at_sign # t"
    using id_take_nth_drop [OF il] ij by (simp add: u_def t_def)
  have jl: "j - Suc i < length t" using ij by (simp add: t_def)
  have tj: "t ! (j - Suc i) = full_stop" using ij by (simp add: t_def)
  have t1: "t = v @ full_stop # w"
    using id_take_nth_drop [OF jl] tj by (simp add: v_def w_def)
  have s2: "s = u @ at_sign # v @ full_stop # w" using s1 t1 by simp
  have ne: "u \<noteq> []" "v \<noteq> []" "w \<noteq> []"
    using ij by (auto simp: u_def v_def w_def t_def)
  have "list_all plain u \<and> list_all plain v \<and> list_all plain w"
    using ws cnt unfolding s2 by (simp add: plain_iff stop_not_at)
  with s2 ne show ?thesis by blast
qed

lemma emailRegex_scripts_eq: "emailRegex_scripts = emailRegex"
  by (simp add: emailRegex_scripts_def emailRegex_def)

lemma isValidEmail_scripts_eq: "isValidEmail_scripts s = isValidEmail s"
  by (simp add: isValidEmail_scripts_def isValidEmail_def emailRegex_scripts_eq)

lemmas email_eval =
  js_def is_js_whitespace_def isValidEmail_def emailRegex_def at_sign_def full_stop_def
  js_trim_def

lemmas shape_eval =
  js_def is_js_whitespace_def at_sign_def full_stop_def spec_shape_def at_then_dot_def
  spec_shape_one_at_def

subsection \<open>The claims on validation\<close>

text \<open>
  C1, as stated, fails: the string \<open>a@b@c.d\<close> has no whitespace, an \<open>@\<close> after a
  nonempty local part and a \<open>.\<close> after that \<open>@\<close> with nonempty segments around it, so it
  has the shape in the words of the specification; \<open>isValidEmail\<close> rejects it, since
  \<open>[^\s@]\<close> admits no second \<open>@\<close>.
\<close>

theorem isValidEmail_rejects_second_at:
  "spec_shape (js ''a@b@c.d'') \<and> \<not> isValidEmail (js ''a@b@c.d'')"
  by (simp add: email_eval shape_eval)

text \<open>
  C1, amended: \<open>isValidEmail\<close> accepts a string exactly when the string has no
  whitespace, exactly one \<open>@\<close> with a nonempty local part before it, and a \<open>.\<close> after the
  \<open>@\<close> with at least one code unit between the two and at least one after the \<open>.\<close>.
\<close>

theorem isValidEmail_iff_shape_one_at:
  "isValidEmail s \<longleftrightarrow> spec_shape_one_at s"
  using split_shape shape_split unfolding isValidEmail_split by blast

theorem isValidEmail_iff_shape_one_at_witness:
  "isValidEmail (js ''user@example.com'') \<and> \<not> isValidEmail (js ''not-an-email'')"
proof -
  have a: "spec_shape_one_at (js ''user@example.com'')"
    by (simp add: shape_eval)
  have b: "\<not> spec_shape_one_at (js ''not-an-email'')"
    by (simp add: shape_eval)
  show ?thesis
    using a b isValidEmail_iff_shape_one_at [of "js ''user@example.com''"]
      isValidEmail_iff_shape_one_at [of "js ''not-an-email''"]
    by simp
qed

text \<open>
  C9: the two scripts validate alike: on every string, \<open>isValidEmail\<close> of
  \<open>src/js/main.js\<close> and \<open>isValidEmail\<close> of \<open>src/scripts/main.js\<close> return the same
  boolean.
\<close>

theorem isValidEmail_variants_agree:
  "isValidEmail s = isValidEmail_scripts s"
  by (simp add: isValidEmail_def isValidEmail_scripts_def emailRegex_def emailRegex_scripts_def)

section \<open>Properties of the menu\<close>

lemma active_added: "classList_contains c (classList_add c cl)"
  by (simp add: classList_contains_def classList_add_def)

lemma active_removed: "\<not> classList_contains c (classList_remove c cl)"
  by (simp add: classList_contains_def classList_remove_def)

lemma openMenu_present:
  assumes "navToggle m = Some t" "navMobile m = Some n"
  shows "openMenu m =
    Returned (m\<lparr>isMenuOpen := True, navToggle := Some (classList_add (js ''active'') t),
                navMobile := Some (classList_add (js ''active'') n),
                body_overflow := js ''hidden''\<rparr>)"
  using assms by (simp add: openMenu_def Let_def)

lemma closeMenu_present:
  assumes "navToggle m = Some t" "navMobile m = Some n"
  shows "closeMenu m =
    Returned (m\<lparr>isMenuOpen := False, navToggle := Some (classList_remove (js ''active'') t),
                navMobile := Some (classList_remove (js ''active'') n),
                body_overflow := []\<rparr>)"
  using assms by (simp add: closeMenu_def Let_def)

lemma openMenu_flag: "isMenuOpen (state_of (openMenu m))"
  by (simp add: openMenu_def Let_def split: option.splits)

lemma closeMenu_flag: "\<not> isMenuOpen (state_of (closeMenu m))"
  by (simp add: closeMenu_def Let_def split: option.splits)

lemma openMenu_listeners: "menu_listeners (state_of (openMenu m)) = menu_listeners m"
  by (simp add: openMenu_def Let_def split: option.splits)

lemma closeMenu_listeners: "menu_listeners (state_of (closeMenu m)) = menu_listeners m"
  by (simp add: closeMenu_def Let_def split: option.splits)

lemma openMenu_both_present: "both_present (state_of (openMenu m)) = both_present m"
  by (simp add: openMenu_def both_present_def Let_def split: option.splits)

lemma closeMenu_both_present: "both_present (state_of (closeMenu m)) = both_present m"
  by (simp add: closeMenu_def both_present_def Let_def split: option.splits)

lemma openMenu_invariant: "both_present m \<Longrightarrow> menu_invariant (state_of (openMenu m))"
  by (auto simp: both_present_def openMenu_present menu_invariant_def has_active_def active_added)

lemma closeMenu_invariant: "both_present m \<Longrightarrow> menu_invariant (state_of (closeMenu m))"
  by (auto simp: both_present_def closeMenu_present menu_invariant_def has_active_def active_removed)

lemma toggleMenu_invariant: "both_present m \<Longrightarrow> menu_invariant (state_of (toggleMenu m))"
  by (simp add: toggleMenu_def openMenu_invariant closeMenu_invariant)

lemma menu_handler_invariant:
  "both_present m \<Longrightarrow> menu_invariant m \<Longrightarrow> menu_invariant (state_of (menu_handler ev m))"
  by (cases ev)
    (simp_all add: menu_handler_def toggleMenu_invariant closeMenu_invariant)

lemma menu_handler_listeners:
  "menu_listeners (state_of (menu_handler ev m)) = menu_listeners m"
  by (cases ev)
    (simp_all add: menu_handler_def toggleMenu_def openMenu_listeners closeMenu_listeners)

lemma menu_handler_both_present:
  "both_present (state_of (menu_handler ev m)) = both_present m"
  by (cases ev)
    (simp_all add: menu_handler_def toggleMenu_def openMenu_both_present closeMenu_both_present)

lemma menu_handler_idle:
  "\<not> menu_listeners m \<Longrightarrow> state_of (menu_handler ev m) = m"
  by (simp add: menu_handler_def)

lemma run_events_invariant:
  "both_present m \<Longrightarrow> menu_invariant m \<Longrightarrow> menu_invariant (run_events evs m)"
proof (induction evs arbitrary: m)
  case Nil
  then show ?case by simp
next
  case (Cons ev evs)
  then show ?case
    by (simp add: menu_handler_invariant menu_handler_both_present)
qed

lemma run_events_listeners: "menu_listeners (run_events evs m) = menu_listeners m"
  by (induction evs arbitrary: m) (simp_all add: menu_handler_listeners)

lemma run_events_both_present: "both_present (run_events evs m) = both_present m"
  by (induction evs arbitrary: m) (simp_all add: menu_handler_both_present)

lemma run_events_idle: "\<not> menu_listeners m \<Longrightarrow> run_events evs m = m"
  by (induction evs arbitrary: m) (simp_all add: menu_handler_idle)

lemma initial_menu_closed: "\<not> isMenuOpen (initial_menu t n ov)"
  by (simp add: initial_menu_def setupMobileMenu_def)

lemma initial_menu_listeners:
  "menu_listeners (initial_menu t n ov) \<longleftrightarrow> t \<noteq> None \<and> n \<noteq> None"
  by (simp add: initial_menu_def setupMobileMenu_def)

lemma initial_menu_both_present:
  "both_present (initial_menu t n ov) \<longleftrightarrow> t \<noteq> None \<and> n \<noteq> None"
  by (simp add: initial_menu_def setupMobileMenu_def both_present_def)

lemma reachable_open_listening:
  "isMenuOpen (run_events evs (initial_menu t n ov)) \<Longrightarrow>
     menu_listeners (run_events evs (initial_menu t n ov))"
proof (rule ccontr)
  assume op: "isMenuOpen (run_events evs (initial_menu t n ov))"
  assume "\<not> menu_listeners (run_events evs (initial_menu t n ov))"
  then have idle: "\<not> menu_listeners (initial_menu t n ov)"
    by (simp add: run_events_listeners)
  from run_events_idle [OF idle] op show False
    by (simp add: initial_menu_closed)
qed

lemmas menu_eval =
  js_def initial_menu_def setupMobileMenu_def menu_handler_def toggleMenu_def openMenu_def
  closeMenu_def classList_add_def classList_remove_def classList_contains_def has_active_def
  menu_invariant_def Let_def

subsection \<open>The claims on the menu\<close>

text \<open>
  C5: the flag \<open>isMenuOpen\<close> is true exactly when the \<open>active\<close> marker is on both the
  toggle and the mobile menu. With both elements present, this holds when the script
  starts on a document whose two elements carry no \<open>active\<close> marker, in every state
  reached from there by events, and it is kept by \<open>toggleMenu\<close>, \<open>openMenu\<close>,
  \<open>closeMenu\<close> and each listener.
\<close>

theorem menu_invariant_initial_and_preserved:
  "(js ''active'' \<notin> set t \<and> js ''active'' \<notin> set n \<longrightarrow>
      menu_invariant (initial_menu (Some t) (Some n) ov) \<and>
      menu_invariant (run_events evs (initial_menu (Some t) (Some n) ov))) \<and>
   (navToggle m \<noteq> None \<and> navMobile m \<noteq> None \<and> menu_invariant m \<longrightarrow>
      menu_invariant (state_of (toggleMenu m)) \<and>
      menu_invariant (state_of (openMenu m)) \<and>
      menu_invariant (state_of (closeMenu m)) \<and>
      menu_invariant (state_of (menu_handler ev m)))"
proof (intro conjI impI)
  assume a: "js ''active'' \<notin> set t \<and> js ''active'' \<notin> set n"
  then show i: "menu_invariant (initial_menu (Some t) (Some n) ov)"
    by (simp add: initial_menu_def setupMobileMenu_def menu_invariant_def has_active_def
        classList_contains_def)
  have "both_present (initial_menu (Some t) (Some n) ov)"
    by (simp add: initial_menu_both_present)
  then show "menu_invariant (run_events evs (initial_menu (Some t) (Some n) ov))"
    using i by (rule run_events_invariant)
next
  assume b: "navToggle m \<noteq> None \<and> navMobile m \<noteq> None \<and> menu_invariant m"
  then have p: "both_present m" by (simp add: both_present_def)
  from p show "menu_invariant (state_of (toggleMenu m))" by (rule toggleMenu_invariant)
  from p show "menu_invariant (state_of (openMenu m))" by (rule openMenu_invariant)
  from p show "menu_invariant (state_of (closeMenu m))" by (rule closeMenu_invariant)
  from p b show "menu_invariant (state_of (menu_handler ev m))"
    by (simp add: menu_handler_invariant)
qed

theorem menu_invariant_initial_and_preserved_witness:
  "menu_invariant (run_events [ToggleClick, KeyDown (js ''Escape''), ToggleClick]
      (initial_menu (Some [js ''nav-toggle'']) (Some [js ''nav-mobile'']) [])) \<and>
   isMenuOpen (run_events [ToggleClick, KeyDown (js ''Escape''), ToggleClick]
      (initial_menu (Some [js ''nav-toggle'']) (Some [js ''nav-mobile'']) [])) \<and>
   menu_invariant (state_of (menu_handler (Resize 1024)
      (state_of (openMenu (initial_menu (Some [js ''nav-toggle'']) (Some [js ''nav-mobile'']) [])))))"
proof -
  let ?t = "[js ''nav-toggle'']" and ?n = "[js ''nav-mobile'']"
  let ?m = "state_of (openMenu (initial_menu (Some ?t) (Some ?n) []))"
  have h1: "js ''active'' \<notin> set ?t \<and> js ''active'' \<notin> set ?n"
    by (simp add: js_def)
  have h2: "navToggle ?m \<noteq> None \<and> navMobile ?m \<noteq> None \<and> menu_invariant ?m"
    by (simp add: menu_eval)
  have o: "isMenuOpen (run_events [ToggleClick, KeyDown (js ''Escape''), ToggleClick]
      (initial_menu (Some ?t) (Some ?n) []))"
    by (simp add: menu_eval)
  from h1 h2 o
    menu_invariant_initial_and_preserved [of ?t ?n "[]" "[ToggleClick, KeyDown (js ''Escape''), ToggleClick]" ?m "Resize 1024"]
  show ?thesis by blast
qed

text \<open>
  C6: \<open>toggleMenu\<close> flips the flag, so from the closed state it gives the open state
  and applied twice it gives back the flag it started from; on a page with both
  elements one click on the toggle opens the menu and a second click closes it.
\<close>

theorem toggleMenu_twice_restores_flag:
  "isMenuOpen (state_of (toggleMenu m)) = (\<not> isMenuOpen m) \<and>
   isMenuOpen (state_of (toggleMenu (state_of (toggleMenu m)))) = isMenuOpen m \<and>
   isMenuOpen (run_events [ToggleClick] (initial_menu (Some t) (Some n) ov)) \<and>
   \<not> isMenuOpen (run_events [ToggleClick, ToggleClick] (initial_menu (Some t) (Some n) ov))"
proof -
  have a: "isMenuOpen (state_of (toggleMenu m)) = (\<not> isMenuOpen m)" for m
    by (simp add: toggleMenu_def openMenu_flag closeMenu_flag)
  have l: "menu_listeners (initial_menu (Some t) (Some n) ov)"
    by (simp add: initial_menu_listeners)
  have c: "\<not> isMenuOpen (initial_menu (Some t) (Some n) ov)"
    by (rule initial_menu_closed)
  have s: "state_of (menu_handler ToggleClick m) = state_of (toggleMenu m)"
    if "menu_listeners m" for m
    using that by (simp add: menu_handler_def)
  have l': "menu_listeners (state_of (toggleMenu (initial_menu (Some t) (Some n) ov)))"
    using l by (simp add: toggleMenu_def openMenu_listeners closeMenu_listeners)
  show ?thesis
    using c by (simp add: a s l l')
qed

theorem toggleMenu_twice_restores_flag_witness:
  "isMenuOpen (state_of (toggleMenu (initial_menu (Some []) (Some []) []))) \<and>
   \<not> isMenuOpen (state_of (toggleMenu (state_of (toggleMenu (initial_menu (Some []) (Some []) [])))))"
  using toggleMenu_twice_restores_flag [of "initial_menu (Some []) (Some []) []" "[]" "[]" "[]"]
  by (simp add: initial_menu_closed)

text \<open>
  C7: in every state the page can reach, a click on a mobile menu link leaves the menu
  closed; when the menu is open, an \<open>Escape\<close> keydown leaves it closed, and so does a
  resize observed with a width of at least 768.
\<close>

theorem forced_close_events:
  "\<not> isMenuOpen (state_of (menu_handler LinkClick (run_events evs (initial_menu t n ov)))) \<and>
   (isMenuOpen (run_events evs (initial_menu t n ov)) \<longrightarrow>
      \<not> isMenuOpen (state_of (menu_handler (KeyDown (js ''Escape''))
           (run_events evs (initial_menu t n ov))))) \<and>
   (isMenuOpen (run_events evs (initial_menu t n ov)) \<and> 768 \<le> w \<longrightarrow>
      \<not> isMenuOpen (state_of (menu_handler (Resize w)
           (run_events evs (initial_menu t n ov)))))"
proof -
  let ?m = "run_events evs (initial_menu t n ov)"
  have link: "\<not> isMenuOpen (state_of (menu_handler LinkClick ?m))"
  proof (cases "menu_listeners ?m")
    case True
    then show ?thesis by (simp add: menu_handler_def closeMenu_flag)
  next
    case False
    with reachable_open_listening [of evs t n ov] have "\<not> isMenuOpen ?m" by blast
    with False show ?thesis by (simp add: menu_handler_def)
  qed
  have esc: "\<not> isMenuOpen (state_of (menu_handler (KeyDown (js ''Escape'')) ?m))"
    if "isMenuOpen ?m"
    using that reachable_open_listening [OF that] by (simp add: menu_handler_def closeMenu_flag)
  have rs: "\<not> isMenuOpen (state_of (menu_handler (Resize w) ?m))"
    if "isMenuOpen ?m" "768 \<le> w"
    using that reachable_open_listening [OF that(1)] by (simp add: menu_handler_def closeMenu_flag)
  from link esc rs show ?thesis by blast
qed

theorem forced_close_events_witness:
  "isMenuOpen (run_events [ToggleClick] (initial_menu (Some []) (Some []) [])) \<and>
   \<not> isMenuOpen (run_events [ToggleClick, LinkClick] (initial_menu (Some []) (Some []) [])) \<and>
   \<not> isMenuOpen (run_events [ToggleClick, KeyDown (js ''Escape'')] (initial_menu (Some []) (Some []) [])) \<and>
   \<not> isMenuOpen (run_events [ToggleClick, Resize 768] (initial_menu (Some []) (Some []) []))"
proof -
  have o: "isMenuOpen (run_events [ToggleClick] (initial_menu (Some []) (Some []) []))"
    by (simp add: menu_eval)
  from o forced_close_events [of "[ToggleClick]" "Some []" "Some []" "[]" 768]
  show ?thesis by simp
qed

section \<open>Properties of the reveal animator\<close>

lemma add_visible_length: "length (reveal_classes (add_visible t s)) = length (reveal_classes s)"
  by (simp add: add_visible_def)

lemma add_visible_keeps: "is_visible el s \<Longrightarrow> is_visible el (add_visible t s)"
proof (cases "t = el \<and> el < length (reveal_classes s)")
  case True
  then show ?thesis
    by (simp add: is_visible_def add_visible_def classList_contains_def classList_add_def)
next
  case False
  assume v: "is_visible el s"
  have "(reveal_classes s)[t := c] ! el = reveal_classes s ! el" for c
  proof (cases "t = el")
    case True
    with False have "length (reveal_classes s) \<le> t" by simp
    then show ?thesis by (simp add: list_update_beyond)
  next
    case False
    then show ?thesis by simp
  qed
  with v show ?thesis by (simp add: is_visible_def add_visible_def)
qed

lemma add_visible_marks:
  "t < length (reveal_classes s) \<Longrightarrow> is_visible t (add_visible t s)"
  by (simp add: is_visible_def add_visible_def classList_contains_def classList_add_def)

lemma add_visible_other:
  "t \<noteq> el \<Longrightarrow> reveal_classes (add_visible t s) ! el = reveal_classes s ! el"
  by (simp add: add_visible_def)

lemma add_visible_observed: "observed (add_visible t s) = observed s"
  by (simp add: add_visible_def)

lemma unobserve_classes: "reveal_classes (unobserve t s) = reveal_classes s"
  by (simp add: unobserve_def)

lemma unobserve_visible: "is_visible el (unobserve t s) = is_visible el s"
  by (simp add: is_visible_def unobserve_classes)

lemma unobserve_observed: "set (observed (unobserve t s)) = set (observed s) - {t}"
  by (simp add: unobserve_def)

lemma callback_length:
  "length (reveal_classes (observer_callback es s)) = length (reveal_classes s)"
  by (induction es arbitrary: s) (simp_all add: unobserve_classes add_visible_length)

lemma callback_keeps: "is_visible el s \<Longrightarrow> is_visible el (observer_callback es s)"
  by (induction es arbitrary: s) (simp_all add: unobserve_visible add_visible_keeps)

lemma callback_observed_subset:
  "set (observed (observer_callback es s)) \<subseteq> set (observed s)"
proof (induction es arbitrary: s)
  case Nil
  show ?case by simp
next
  case (Cons e es)
  show ?case
  proof (cases "isIntersecting e")
    case True
    have "set (observed (observer_callback es (unobserve (target e) (add_visible (target e) s))))
        \<subseteq> set (observed (unobserve (target e) (add_visible (target e) s)))"
      by (rule Cons.IH)
    also have "\<dots> \<subseteq> set (observed s)"
      by (auto simp: unobserve_observed add_visible_observed)
    finally show ?thesis using True by simp
  next
    case False
    then show ?thesis by (simp add: Cons.IH)
  qed
qed

lemma callback_marks:
  assumes "e \<in> set es" "isIntersecting e" "target e < length (reveal_classes s)"
  shows "is_visible (target e) (observer_callback es s) \<and>
         target e \<notin> set (observed (observer_callback es s))"
  using assms
proof (induction es arbitrary: s)
  case Nil
  then show ?case by simp
next
  case (Cons x es)
  let ?s = "if isIntersecting x then unobserve (target x) (add_visible (target x) s) else s"
  have len: "length (reveal_classes ?s) = length (reveal_classes s)"
    by (simp add: unobserve_classes add_visible_length)
  show ?case
  proof (cases "e \<in> set es")
    case True
    with Cons.IH [of ?s] Cons.prems len show ?thesis by simp
  next
    case False
    with Cons.prems have ex: "x = e" by simp
    with Cons.prems have v: "is_visible (target e) ?s"
      by (simp add: unobserve_visible add_visible_marks)
    from ex Cons.prems have "target e \<notin> set (observed ?s)"
      by (simp add: unobserve_observed)
    with callback_observed_subset [of es ?s]
    have "target e \<notin> set (observed (observer_callback es ?s))" by blast
    with v show ?thesis by (simp add: callback_keeps)
  qed
qed

lemma callback_untouched:
  "list_all (\<lambda>e. target e \<noteq> el) es \<Longrightarrow>
     reveal_classes (observer_callback es s) ! el = reveal_classes s ! el"
  by (induction es arbitrary: s) (simp_all add: unobserve_classes add_visible_other)

lemma step_keeps: "reveal_step s s' \<Longrightarrow> is_visible el s \<Longrightarrow> is_visible el s'"
  by (induction rule: reveal_step.induct) (rule callback_keeps)

lemma steps_keep: "reveal_step\<^sup>*\<^sup>* s s' \<Longrightarrow> is_visible el s \<Longrightarrow> is_visible el s'"
  by (induction rule: rtranclp_induct) (auto intro: step_keeps)

lemma step_unobserved:
  assumes "reveal_step s s'" "el \<notin> set (observed s)"
  shows "el \<notin> set (observed s') \<and> reveal_classes s' ! el = reveal_classes s ! el"
  using assms
proof (induction rule: reveal_step.induct)
  case (deliver s es)
  then have "list_all (\<lambda>e. target e \<noteq> el) es"
    by (auto simp: list_all_iff)
  then have "reveal_classes (observer_callback es s) ! el = reveal_classes s ! el"
    by (rule callback_untouched)
  moreover from deliver callback_observed_subset [of es s]
  have "el \<notin> set (observed (observer_callback es s))" by blast
  ultimately show ?case by simp
qed

lemma steps_unobserved:
  "reveal_step\<^sup>*\<^sup>* s s' \<Longrightarrow> el \<notin> set (observed s) \<Longrightarrow>
     el \<notin> set (observed s') \<and> reveal_classes s' ! el = reveal_classes s ! el"
proof (induction rule: rtranclp_induct)
  case base
  then show ?case by simp
next
  case (step y z)
  with step_unobserved [of y z el] show ?case by simp
qed

lemma markings_visible:
  "reveal_run (s # ss) \<Longrightarrow> is_visible el s \<Longrightarrow> markings el (s # ss) = 0"
proof (induction ss arbitrary: s)
  case Nil
  then show ?case by simp
next
  case (Cons s' ss)
  then have "is_visible el s'" by (auto intro: step_keeps)
  with Cons show ?case by simp
qed

lemma markings_once: "reveal_run tr \<Longrightarrow> markings el tr \<le> 1"
proof (induction el tr rule: markings.induct)
  case (1 el)
  then show ?case by simp
next
  case (2 el s)
  then show ?case by simp
next
  case (3 el s s' ss)
  show ?case
  proof (cases "is_visible el s'")
    case True
    with 3 have "markings el (s' # ss) = 0" by (simp add: markings_visible)
    then show ?thesis by simp
  next
    case False
    with 3 show ?thesis by simp
  qed
qed

lemma two_reveals_eq:
  "two_reveals = \<lparr>reveal_classes = [[js ''reveal''], [js ''reveal'']], observed = [0, 1]\<rparr>"
  by (simp add: two_reveals_def setupRevealAnimations_def observe_def upt_rec)

lemma two_reveals_step: "reveal_step two_reveals (observer_callback second_enters two_reveals)"
  by (rule reveal_step.deliver) (simp add: two_reveals_eq second_enters_def)

subsection \<open>The claim on the reveal animator\<close>

text \<open>
  C8: across any number of steps of the animator an element that has the \<open>visible\<close>
  marker keeps it; in a run of steps the marker appears on an element at most once; a
  batch with an intersecting entry for an element leaves the element marked and no
  longer observed; and an element that is not observed stays unobserved, with its
  class list as it is, whatever is delivered later.
\<close>

theorem reveal_marker_once_and_kept:
  "(reveal_step\<^sup>*\<^sup>* s s' \<and> is_visible el s \<longrightarrow> is_visible el s') \<and>
   (reveal_run tr \<longrightarrow> markings el tr \<le> 1) \<and>
   (e \<in> set es \<and> isIntersecting e \<and> target e < length (reveal_classes s) \<longrightarrow>
      is_visible (target e) (observer_callback es s) \<and>
      target e \<notin> set (observed (observer_callback es s))) \<and>
   (reveal_step\<^sup>*\<^sup>* s s' \<and> el \<notin> set (observed s) \<longrightarrow>
      el \<notin> set (observed s') \<and> reveal_classes s' ! el = reveal_classes s ! el)"
  using steps_keep [of s s' el] markings_once [of tr el] callback_marks [of e es s]
    steps_unobserved [of s s' el]
  by blast

theorem reveal_marker_once_and_kept_witness:
  "is_visible 1 (observer_callback second_enters two_reveals) \<and>
   1 \<notin> set (observed (observer_callback second_enters two_reveals)) \<and>
   \<not> is_visible 1 two_reveals \<and>
   markings 1 [two_reveals, observer_callback second_enters two_reveals] = 1"
proof -
  let ?s' = "observer_callback second_enters two_reveals"
  let ?e = "\<lparr>target = 1, isIntersecting = True\<rparr>"
  have h: "?e \<in> set second_enters \<and> isIntersecting ?e \<and> target ?e < length (reveal_classes two_reveals)"
    by (simp add: second_enters_def two_reveals_eq)
  have r: "reveal_run [two_reveals, ?s']"
    by (simp add: two_reveals_step)
  have n: "\<not> is_visible 1 two_reveals"
    by (simp add: two_reveals_eq is_visible_def classList_contains_def js_def)
  from h r reveal_marker_once_and_kept [of two_reveals ?s' 1 "[two_reveals, ?s']" ?e second_enters]
  have v: "is_visible 1 ?s' \<and> 1 \<notin> set (observed ?s')" and m: "markings 1 [two_reveals, ?s'] \<le> 1"
    by simp_all
  from v n have "markings 1 [two_reveals, ?s'] = 1" by simp
  with v n show ?thesis by simp
qed

section \<open>Properties of the signup form\<close>

subsection \<open>Trimming\<close>

lemma trim_end_keeps_head:
  assumes "t = [] \<or> \<not> P (hd t)"
  shows "dropWhile P (rev (dropWhile P (rev t))) = rev (dropWhile P (rev t))"
proof -
  let ?u = "rev (dropWhile P (rev t))"
  have "?u @ rev (takeWhile P (rev t)) = rev (takeWhile P (rev t) @ dropWhile P (rev t))"
    by (simp only: rev_append)
  also have "\<dots> = t"
    by (simp only: takeWhile_dropWhile_id rev_rev_ident)
  finally have t: "t = ?u @ rev (takeWhile P (rev t))" by (rule sym)
  show ?thesis
  proof (cases "?u = []")
    case True
    show ?thesis unfolding True by simp
  next
    case False
    with t have "hd t = hd ?u" by (metis hd_append2)
    moreover from False have "t \<noteq> []" by auto
    ultimately have "\<not> P (hd ?u)" using assms by simp
    then show ?thesis by (simp add: dropWhile_eq_self_iff)
  qed
qed

lemma js_trim_idem: "js_trim (js_trim s) = js_trim s"
proof -
  let ?t = "dropWhile is_js_whitespace s"
  have "?t = [] \<or> \<not> is_js_whitespace (hd ?t)"
    using hd_dropWhile [of is_js_whitespace s] by blast
  then have "dropWhile is_js_whitespace (js_trim s) = js_trim s"
    unfolding js_trim_def by (rule trim_end_keeps_head)
  then have "js_trim (js_trim s) = rev (dropWhile is_js_whitespace (rev (js_trim s)))"
    by (simp add: js_trim_def)
  also have "\<dots> = js_trim s"
    by (simp add: js_trim_def)
  finally show ?thesis .
qed

lemma js_trim_padded:
  assumes a: "list_all is_js_whitespace a" and b: "list_all is_js_whitespace b"
    and e: "e \<noteq> []" "\<not> is_js_whitespace (hd e)" "\<not> is_js_whitespace (last e)"
  shows "js_trim (a @ e @ b) = e"
proof -
  have 1: "dropWhile is_js_whitespace (a @ e @ b) = e @ b"
    using a e by (cases e) (simp_all add: dropWhile_append list_all_iff)
  have "dropWhile is_js_whitespace (rev b @ rev e) = dropWhile is_js_whitespace (rev e)"
    using b by (simp add: dropWhile_append list_all_iff)
  also have "\<dots> = rev e"
    using e by (simp add: dropWhile_eq_self_iff hd_rev)
  finally show ?thesis by (simp add: js_trim_def 1)
qed

lemma valid_no_space:
  assumes "isValidEmail e"
  shows "e \<noteq> [] \<and> \<not> list_ex is_js_whitespace e"
proof -
  from assms obtain u v w where s: "e = u @ at_sign # v @ full_stop # w"
    and pl: "list_all plain u" "list_all plain v" "list_all plain w"
    unfolding isValidEmail_split by blast
  from pl show ?thesis
    unfolding s by (simp add: plain_iff at_not_space stop_not_space)
qed

lemma js_trim_valid_padded:
  assumes "list_all is_js_whitespace a" "list_all is_js_whitespace b" "isValidEmail e"
  shows "js_trim (a @ e @ b) = e"
proof -
  from valid_no_space [OF assms(3)] have ne: "e \<noteq> []" and ns: "\<not> list_ex is_js_whitespace e"
    by simp_all
  from ne ns have "\<not> is_js_whitespace (hd e)" "\<not> is_js_whitespace (last e)"
    by (auto simp: list_ex_iff)
  with assms ne show ?thesis by (simp add: js_trim_padded)
qed

subsection \<open>\<open>showMessage\<close>\<close>

lemma showMessage_absent: "signupMessage p = None \<Longrightarrow> showMessage msg ty p = p"
  by (simp add: showMessage_def)

lemma showMessage_present:
  "signupMessage p \<noteq> None \<Longrightarrow>
     showMessage msg ty p =
       p\<lparr>signupMessage := Some \<lparr>textContent = msg, className = js ''signup-message '' @ ty\<rparr>,
         timers := timers p @ [(5000, ClearMessage)]\<rparr>"
  by (auto simp: showMessage_def)

lemma showMessage_fields:
  "input_value (showMessage msg ty p) = input_value p"
  "button_text (showMessage msg ty p) = button_text p"
  "button_disabled (showMessage msg ty p) = button_disabled p"
  "requests (showMessage msg ty p) = requests p"
  by (simp_all add: showMessage_def split: option.splits)

lemma showMessage_shows:
  "signupMessage p \<noteq> None \<Longrightarrow> shows_message msg ty (showMessage msg ty p)"
  by (simp add: showMessage_present shows_message_def)

lemma showMessage_none:
  "signupMessage p = None \<Longrightarrow> signupMessage (showMessage msg ty p) = None"
  by (simp add: showMessage_absent)

lemma showMessage_timers:
  "timers (showMessage msg ty p) =
     timers p @ (if signupMessage p = None then [] else [(5000, ClearMessage)])"
  by (simp add: showMessage_def split: option.splits)

lemma showMessage_input:
  "showMessage msg ty (p\<lparr>input_value := x\<rparr>) = (showMessage msg ty p)\<lparr>input_value := x\<rparr>"
  by (simp add: showMessage_def split: option.splits)

subsection \<open>The listeners\<close>

lemma submit_js_invalid:
  "\<not> isValidEmail (js_trim (input_value p)) \<Longrightarrow>
     submit_js p = showMessage (js ''Please enter a valid email address.'') (js ''error'') p"
  by (simp add: submit_js_def)

lemma submit_js_valid:
  "isValidEmail (js_trim (input_value p)) \<Longrightarrow>
     submit_js p =
       p\<lparr>button_text := js ''Sending...'', button_disabled := True,
         timers := timers p @ [(1000, SimulatedResponse (button_text p))]\<rparr>"
  by (simp add: submit_js_def Let_def)

lemma submit_scripts_invalid:
  "\<not> isValidEmail (js_trim (input_value p)) \<Longrightarrow>
     submit_scripts p = showMessage (js ''Please enter a valid email address.'') (js ''error'') p"
  by (simp add: submit_scripts_def isValidEmail_scripts_eq)

lemma submit_scripts_valid:
  "isValidEmail (js_trim (input_value p)) \<Longrightarrow>
     submit_scripts p =
       p\<lparr>button_text := js ''Signing up...'', button_disabled := True,
         requests := requests p @ [(signup_request (js_trim (input_value p)), button_text p)]\<rparr>"
  by (simp add: submit_scripts_def isValidEmail_scripts_eq Let_def signup_request_def)

lemma fire_last_timer:
  "fire_timer (length (timers p)) (q\<lparr>timers := timers p @ [(d, c)]\<rparr>) =
     run_callback c (q\<lparr>timers := timers p\<rparr>)"
  by (simp add: fire_timer_def)

lemma settle_last_request:
  "settle_request (length (requests p)) outcome (q\<lparr>requests := requests p @ [(r, t)]\<rparr>) =
     fetch_settled outcome t (q\<lparr>requests := requests p\<rparr>)"
  by (simp add: settle_request_def)

lemma simulated_fields:
  "input_value (run_callback (SimulatedResponse t) q) = []"
  "button_text (run_callback (SimulatedResponse t) q) = t"
  "button_disabled (run_callback (SimulatedResponse t) q) = False"
  by (simp_all add: Let_def)

lemma simulated_message:
  "signupMessage q \<noteq> None \<Longrightarrow>
     shows_message (js ''Thanks! We'll be in touch soon.'') (js ''success'')
       (run_callback (SimulatedResponse t) q)"
  "signupMessage q = None \<Longrightarrow> signupMessage (run_callback (SimulatedResponse t) q) = None"
  by (simp_all add: Let_def showMessage_present showMessage_absent shows_message_def)

lemma settled_fields:
  "button_text (fetch_settled outcome t q) = t"
  "button_disabled (fetch_settled outcome t q) = False"
  "input_value (fetch_settled outcome t q) = (if chain_fulfilled outcome then [] else input_value q)"
  by (simp_all add: fetch_settled_def Let_def showMessage_fields)

lemma settled_message:
  "signupMessage q \<noteq> None \<Longrightarrow> chain_fulfilled outcome \<Longrightarrow>
     shows_message (js ''You're on the list!'') (js ''success'') (fetch_settled outcome t q)"
  "signupMessage q \<noteq> None \<Longrightarrow> \<not> chain_fulfilled outcome \<Longrightarrow>
     shows_message (js ''Something went wrong. Please try again.'') (js ''error'')
       (fetch_settled outcome t q)"
  "signupMessage q = None \<Longrightarrow> signupMessage (fetch_settled outcome t q) = None"
  by (simp_all add: fetch_settled_def Let_def showMessage_present showMessage_absent
      shows_message_def)

subsection \<open>The input does not reach the callbacks\<close>

lemma submit_js_input:
  "submit_js (p\<lparr>input_value := s\<rparr>) = (submit_js (p\<lparr>input_value := js_trim s\<rparr>))\<lparr>input_value := s\<rparr>"
proof (cases "isValidEmail (js_trim s)")
  case True
  then show ?thesis by (simp add: submit_js_valid js_trim_idem)
next
  case False
  then show ?thesis by (simp add: submit_js_invalid js_trim_idem showMessage_input)
qed

lemma submit_scripts_input:
  "submit_scripts (p\<lparr>input_value := s\<rparr>) =
     (submit_scripts (p\<lparr>input_value := js_trim s\<rparr>))\<lparr>input_value := s\<rparr>"
proof (cases "isValidEmail (js_trim s)")
  case True
  then show ?thesis by (simp add: submit_scripts_valid js_trim_idem)
next
  case False
  then show ?thesis by (simp add: submit_scripts_invalid js_trim_idem showMessage_input)
qed

lemma simulated_input:
  "run_callback (SimulatedResponse t) (q\<lparr>input_value := x\<rparr>) = run_callback (SimulatedResponse t) q"
  by (simp add: Let_def showMessage_input)

lemma settled_input:
  "fetch_settled outcome t (q\<lparr>input_value := x\<rparr>) =
     (fetch_settled outcome t q)\<lparr>input_value := if chain_fulfilled outcome then [] else x\<rparr>"
  by (simp add: fetch_settled_def Let_def showMessage_input)

lemma completed_js_input:
  assumes v: "isValidEmail (js_trim s)"
  shows "fire_timer (length (timers p)) (submit_js (p\<lparr>input_value := s\<rparr>)) =
         fire_timer (length (timers p)) (submit_js (p\<lparr>input_value := js_trim s\<rparr>))"
proof -
  have "fire_timer (length (timers p)) (submit_js (p\<lparr>input_value := x\<rparr>)) =
      run_callback (SimulatedResponse (button_text p))
        (p\<lparr>button_text := js ''Sending...'', button_disabled := True\<rparr>)"
    if "isValidEmail (js_trim x)" for x
  proof -
    have "submit_js (p\<lparr>input_value := x\<rparr>) =
        p\<lparr>input_value := x, button_text := js ''Sending...'', button_disabled := True,
          timers := timers p @ [(1000, SimulatedResponse (button_text p))]\<rparr>"
      using that by (simp add: submit_js_valid)
    then have "fire_timer (length (timers p)) (submit_js (p\<lparr>input_value := x\<rparr>)) =
        run_callback (SimulatedResponse (button_text p))
          (p\<lparr>input_value := x, button_text := js ''Sending...'', button_disabled := True,
             timers := timers p\<rparr>)"
      by (simp only: fire_last_timer)
    also have "p\<lparr>input_value := x, button_text := js ''Sending...'', button_disabled := True,
             timers := timers p\<rparr> =
        (p\<lparr>button_text := js ''Sending...'', button_disabled := True\<rparr>)\<lparr>input_value := x\<rparr>"
      by simp
    finally show ?thesis by (simp only: simulated_input)
  qed
  from this [of s] this [of "js_trim s"] v show ?thesis by (simp add: js_trim_idem)
qed

lemma completed_scripts_input:
  assumes v: "isValidEmail (js_trim s)"
  shows "settle_request (length (requests p)) outcome (submit_scripts (p\<lparr>input_value := s\<rparr>)) =
         (settle_request (length (requests p)) outcome
            (submit_scripts (p\<lparr>input_value := js_trim s\<rparr>)))
           \<lparr>input_value := if chain_fulfilled outcome then [] else s\<rparr>"
proof -
  have "settle_request (length (requests p)) outcome (submit_scripts (p\<lparr>input_value := x\<rparr>)) =
      (fetch_settled outcome (button_text p)
        (p\<lparr>button_text := js ''Signing up...'', button_disabled := True\<rparr>))
        \<lparr>input_value := if chain_fulfilled outcome then [] else x\<rparr>"
    if "isValidEmail (js_trim x)" for x
  proof -
    have "submit_scripts (p\<lparr>input_value := x\<rparr>) =
        p\<lparr>input_value := x, button_text := js ''Signing up...'', button_disabled := True,
          requests := requests p @ [(signup_request (js_trim x), button_text p)]\<rparr>"
      using that by (simp add: submit_scripts_valid)
    then have "settle_request (length (requests p)) outcome (submit_scripts (p\<lparr>input_value := x\<rparr>)) =
        fetch_settled outcome (button_text p)
          (p\<lparr>input_value := x, button_text := js ''Signing up...'', button_disabled := True,
             requests := requests p\<rparr>)"
      by (simp only: settle_last_request)
    also have "p\<lparr>input_value := x, button_text := js ''Signing up...'', button_disabled := True,
             requests := requests p\<rparr> =
        (p\<lparr>button_text := js ''Signing up...'', button_disabled := True\<rparr>)\<lparr>input_value := x\<rparr>"
      by simp
    finally show ?thesis by (simp only: settled_input)
  qed
  from this [of s] this [of "js_trim s"] v show ?thesis by (simp add: js_trim_idem)
qed

lemma request_bodies:
  assumes v: "isValidEmail (js_trim s)"
  shows "map (\<lambda>r. body (fst r)) (requests (submit_scripts (p\<lparr>input_value := s\<rparr>))) =
         map (\<lambda>r. body (fst r)) (requests p) @ [JObject [(js ''email'', JString (js_trim s))]]"
  using v by (simp add: submit_scripts_valid signup_request_def)

subsection \<open>The scenarios\<close>

lemmas page_eval =
  page_with_message_def page_without_message_def submit_js_def submit_scripts_def
  showMessage_def fire_timer_def settle_request_def fetch_settled_def chain_fulfilled_def
  shows_message_def isValidEmail_scripts_eq Let_def

lemma example_valid: "isValidEmail (js_trim (js ''user@example.com''))"
  by (simp add: email_eval)

lemma example_invalid: "\<not> isValidEmail (js_trim (js ''not-an-email''))"
  by (simp add: email_eval)

lemma example_js_trim: "js_trim (js ''user@example.com'') = js ''user@example.com''"
  by (simp add: email_eval)

lemma example_padded_trim: "js_trim (js ''  user@example.com '') = js ''user@example.com''"
  by (simp add: email_eval)

lemma example_padded_valid: "isValidEmail (js_trim (js ''  user@example.com ''))"
  by (simp add: email_eval)

subsection \<open>The claims on the signup form\<close>

text \<open>
  C2, as stated, fails in two ways. On a page without \<open>#signup-message\<close>,
  \<open>showMessage\<close> returns at once, so after a valid submission has succeeded no message is
  shown. And in \<open>src/scripts/main.js\<close> a response with an OK status whose body
  \<open>response.json()\<close> cannot parse runs the \<open>catch\<close> callback: the failure text is shown
  and the input keeps its value.
\<close>

theorem success_message_not_guaranteed:
  "isValidEmail (js_trim (input_value (page_without_message (js ''user@example.com'')))) \<and>
   signupMessage (fire_timer 0 (submit_js (page_without_message (js ''user@example.com'')))) = None \<and>
   isValidEmail (js_trim (input_value (page_with_message (js ''user@example.com'')))) \<and>
   shows_message (js ''Something went wrong. Please try again.'') (js ''error'')
     (settle_request 0 (Response True False)
        (submit_scripts (page_with_message (js ''user@example.com'')))) \<and>
   input_value (settle_request 0 (Response True False)
        (submit_scripts (page_with_message (js ''user@example.com'')))) = js ''user@example.com''"
  using example_valid by (simp add: page_eval)

text \<open>
  C2, amended: for a valid trimmed value the listener sets the pending label and disables
  the button. When the submission then succeeds (the simulated delay ends in
  \<open>src/js/main.js\<close>; the response is OK and its body parses in \<open>src/scripts/main.js\<close>) the
  input is cleared, the button gets its original label back and is enabled, and the
  success message is shown provided the page has the message area.
\<close>

theorem valid_input_submitted_then_completed:
  "isValidEmail (js_trim (input_value p)) \<longrightarrow>
     button_text (submit_js p) = js ''Sending...'' \<and> button_disabled (submit_js p) \<and>
     timers (submit_js p) = timers p @ [(1000, SimulatedResponse (button_text p))] \<and>
     (signupMessage p \<noteq> None \<longrightarrow>
        shows_message (js ''Thanks! We'll be in touch soon.'') (js ''success'')
          (fire_timer (length (timers p)) (submit_js p))) \<and>
     input_value (fire_timer (length (timers p)) (submit_js p)) = [] \<and>
     button_text (fire_timer (length (timers p)) (submit_js p)) = button_text p \<and>
     \<not> button_disabled (fire_timer (length (timers p)) (submit_js p)) \<and>
     button_text (submit_scripts p) = js ''Signing up...'' \<and> button_disabled (submit_scripts p) \<and>
     requests (submit_scripts p) =
       requests p @ [(signup_request (js_trim (input_value p)), button_text p)] \<and>
     (signupMessage p \<noteq> None \<longrightarrow>
        shows_message (js ''You're on the list!'') (js ''success'')
          (settle_request (length (requests p)) (Response True True) (submit_scripts p))) \<and>
     input_value (settle_request (length (requests p)) (Response True True) (submit_scripts p)) = [] \<and>
     button_text (settle_request (length (requests p)) (Response True True) (submit_scripts p)) =
       button_text p \<and>
     \<not> button_disabled
         (settle_request (length (requests p)) (Response True True) (submit_scripts p))"
proof
  assume v: "isValidEmail (js_trim (input_value p))"
  have ok: "chain_fulfilled (Response True True)"
    by (simp add: chain_fulfilled_def)
  have js: "fire_timer (length (timers p)) (submit_js p) =
      run_callback (SimulatedResponse (button_text p))
        (p\<lparr>button_text := js ''Sending...'', button_disabled := True, timers := timers p\<rparr>)"
    by (simp add: submit_js_valid [OF v] fire_last_timer)
  have sc: "settle_request (length (requests p)) outcome (submit_scripts p) =
      fetch_settled outcome (button_text p)
        (p\<lparr>button_text := js ''Signing up...'', button_disabled := True,
           requests := requests p\<rparr>)" for outcome
    by (simp add: submit_scripts_valid [OF v] settle_last_request)
  show "button_text (submit_js p) = js ''Sending...'' \<and> button_disabled (submit_js p) \<and>
     timers (submit_js p) = timers p @ [(1000, SimulatedResponse (button_text p))] \<and>
     (signupMessage p \<noteq> None \<longrightarrow>
        shows_message (js ''Thanks! We'll be in touch soon.'') (js ''success'')
          (fire_timer (length (timers p)) (submit_js p))) \<and>
     input_value (fire_timer (length (timers p)) (submit_js p)) = [] \<and>
     button_text (fire_timer (length (timers p)) (submit_js p)) = button_text p \<and>
     \<not> button_disabled (fire_timer (length (timers p)) (submit_js p)) \<and>
     button_text (submit_scripts p) = js ''Signing up...'' \<and> button_disabled (submit_scripts p) \<and>
     requests (submit_scripts p) =
       requests p @ [(signup_request (js_trim (input_value p)), button_text p)] \<and>
     (signupMessage p \<noteq> None \<longrightarrow>
        shows_message (js ''You're on the list!'') (js ''success'')
          (settle_request (length (requests p)) (Response True True) (submit_scripts p))) \<and>
     input_value (settle_request (length (requests p)) (Response True True) (submit_scripts p)) = [] \<and>
     button_text (settle_request (length (requests p)) (Response True True) (submit_scripts p)) =
       button_text p \<and>
     \<not> button_disabled
         (settle_request (length (requests p)) (Response True True) (submit_scripts p))"
    unfolding js sc
    by (simp add: submit_js_valid [OF v] submit_scripts_valid [OF v] simulated_fields
        simulated_message settled_fields settled_message ok del: run_callback.simps)
qed

theorem valid_input_submitted_then_completed_witness:
  "button_text (submit_js (page_with_message (js ''user@example.com''))) = js ''Sending...'' \<and>
   button_disabled (submit_scripts (page_with_message (js ''user@example.com''))) \<and>
   shows_message (js ''Thanks! We'll be in touch soon.'') (js ''success'')
     (fire_timer 0 (submit_js (page_with_message (js ''user@example.com'')))) \<and>
   shows_message (js ''You're on the list!'') (js ''success'')
     (settle_request 0 (Response True True)
        (submit_scripts (page_with_message (js ''user@example.com'')))) \<and>
   input_value (settle_request 0 (Response True True)
        (submit_scripts (page_with_message (js ''user@example.com'')))) = [] \<and>
   button_text (settle_request 0 (Response True True)
        (submit_scripts (page_with_message (js ''user@example.com'')))) = js ''Notify Me''"
proof -
  let ?p = "page_with_message (js ''user@example.com'')"
  have h: "isValidEmail (js_trim (input_value ?p))"
    using example_valid by (simp add: page_with_message_def)
  have m: "signupMessage ?p \<noteq> None" "timers ?p = []" "requests ?p = []"
    "button_text ?p = js ''Notify Me''"
    by (simp_all add: page_with_message_def)
  from h m valid_input_submitted_then_completed [of ?p] show ?thesis by simp
qed

text \<open>
  C3, as stated, fails on a page without \<open>#signup-message\<close>: the request of a valid
  submission fails and no message is shown.
\<close>

theorem failure_message_no_message_area:
  "isValidEmail (js_trim (input_value (page_without_message (js ''user@example.com'')))) \<and>
   signupMessage (settle_request 0 NetworkError
      (submit_scripts (page_without_message (js ''user@example.com'')))) = None"
  using example_valid by (simp add: page_eval)

text \<open>
  C3, amended: in \<open>src/scripts/main.js\<close>, for a valid trimmed value, when the request
  fails (a network error or a status that is not OK) the button gets its original label
  back and is enabled, the input keeps its value, and the retry message is shown provided
  the page has the message area.
\<close>

theorem failed_request_reported:
  "isValidEmail (js_trim (input_value p)) \<and>
   (outcome = NetworkError \<or> outcome = Response False parsed) \<longrightarrow>
     (signupMessage p \<noteq> None \<longrightarrow>
        shows_message (js ''Something went wrong. Please try again.'') (js ''error'')
          (settle_request (length (requests p)) outcome (submit_scripts p))) \<and>
     button_text (settle_request (length (requests p)) outcome (submit_scripts p)) =
       button_text p \<and>
     \<not> button_disabled (settle_request (length (requests p)) outcome (submit_scripts p)) \<and>
     input_value (settle_request (length (requests p)) outcome (submit_scripts p)) =
       input_value p"
proof
  assume a: "isValidEmail (js_trim (input_value p)) \<and>
    (outcome = NetworkError \<or> outcome = Response False parsed)"
  then have v: "isValidEmail (js_trim (input_value p))" by simp
  from a have f: "\<not> chain_fulfilled outcome"
    by (auto simp: chain_fulfilled_def)
  have sc: "settle_request (length (requests p)) outcome (submit_scripts p) =
      fetch_settled outcome (button_text p)
        (p\<lparr>button_text := js ''Signing up...'', button_disabled := True,
           requests := requests p\<rparr>)"
    by (simp add: submit_scripts_valid [OF v] settle_last_request)
  show "(signupMessage p \<noteq> None \<longrightarrow>
        shows_message (js ''Something went wrong. Please try again.'') (js ''error'')
          (settle_request (length (requests p)) outcome (submit_scripts p))) \<and>
     button_text (settle_request (length (requests p)) outcome (submit_scripts p)) =
       button_text p \<and>
     \<not> button_disabled (settle_request (length (requests p)) outcome (submit_scripts p)) \<and>
     input_value (settle_request (length (requests p)) outcome (submit_scripts p)) =
       input_value p"
    unfolding sc by (simp add: settled_fields settled_message f)
qed

theorem failed_request_reported_witness:
  "shows_message (js ''Something went wrong. Please try again.'') (js ''error'')
     (settle_request 0 (Response False True)
        (submit_scripts (page_with_message (js ''user@example.com'')))) \<and>
   button_text (settle_request 0 (Response False True)
        (submit_scripts (page_with_message (js ''user@example.com'')))) = js ''Notify Me'' \<and>
   \<not> button_disabled (settle_request 0 (Response False True)
        (submit_scripts (page_with_message (js ''user@example.com'')))) \<and>
   input_value (settle_request 0 (Response False True)
        (submit_scripts (page_with_message (js ''user@example.com'')))) = js ''user@example.com''"
proof -
  let ?p = "page_with_message (js ''user@example.com'')"
  have h: "isValidEmail (js_trim (input_value ?p))"
    using example_valid by (simp add: page_with_message_def)
  have m: "signupMessage ?p \<noteq> None" "requests ?p = []"
    "button_text ?p = js ''Notify Me''" "input_value ?p = js ''user@example.com''"
    by (simp_all add: page_with_message_def)
  from h m failed_request_reported [of ?p "Response False True" True] show ?thesis by simp
qed

text \<open>
  C4, as stated, fails on a page without \<open>#signup-message\<close>: the value
  \<open>not-an-email\<close> is rejected and no message is shown.
\<close>

theorem invalid_input_no_message_area:
  "\<not> isValidEmail (js_trim (input_value (page_without_message (js ''not-an-email'')))) \<and>
   signupMessage (submit_js (page_without_message (js ''not-an-email''))) = None \<and>
   signupMessage (submit_scripts (page_without_message (js ''not-an-email''))) = None"
  using example_invalid by (simp add: page_eval)

text \<open>
  C4, amended: for a trimmed value that fails validation both listeners do the same:
  they start no request and no simulated delay (the only timer added is the one that
  clears the message), they leave the button's label, its \<open>disabled\<close> flag and the input's
  value as they are, and they show the error message provided the page has the message
  area; on a page without it they change nothing.
\<close>

theorem invalid_input_not_submitted:
  "\<not> isValidEmail (js_trim (input_value p)) \<longrightarrow>
     (signupMessage p \<noteq> None \<longrightarrow>
        shows_message (js ''Please enter a valid email address.'') (js ''error'') (submit_js p) \<and>
        shows_message (js ''Please enter a valid email address.'') (js ''error'')
          (submit_scripts p)) \<and>
     (signupMessage p = None \<longrightarrow> submit_js p = p) \<and>
     submit_scripts p = submit_js p \<and>
     requests (submit_js p) = requests p \<and>
     timers (submit_js p) =
       timers p @ (if signupMessage p = None then [] else [(5000, ClearMessage)]) \<and>
     button_text (submit_js p) = button_text p \<and>
     button_disabled (submit_js p) = button_disabled p \<and>
     input_value (submit_js p) = input_value p"
  by (simp add: submit_js_invalid submit_scripts_invalid showMessage_fields showMessage_shows
      showMessage_timers showMessage_absent)

theorem invalid_input_not_submitted_witness:
  "shows_message (js ''Please enter a valid email address.'') (js ''error'')
     (submit_js (page_with_message (js ''not-an-email''))) \<and>
   requests (submit_js (page_with_message (js ''not-an-email''))) = [] \<and>
   timers (submit_js (page_with_message (js ''not-an-email''))) = [(5000, ClearMessage)] \<and>
   \<not> button_disabled (submit_js (page_with_message (js ''not-an-email'')))"
proof -
  have h: "\<not> isValidEmail (js_trim (input_value (page_with_message (js ''not-an-email''))))"
    using example_invalid by (simp add: page_with_message_def)
  have m: "signupMessage (page_with_message (js ''not-an-email'')) \<noteq> None"
    by (simp add: page_with_message_def)
  from h m invalid_input_not_submitted [of "page_with_message (js ''not-an-email'')"]
  show ?thesis by (simp add: page_with_message_def)
qed

text \<open>
  C10: the listeners see the input only through \<open>trim\<close>. Run on a value \<open>s\<close> and on
  \<open>trim(s)\<close> they give the same page but for the input's own value, which they leave as
  it is; when the submission completes the pages are again the same, with the input
  cleared in both or left as typed in both; the body of the request carries the trimmed
  value; and a valid email between runs of whitespace is trimmed to itself and
  submitted.
\<close>

theorem submission_trims:
  "submit_js (p\<lparr>input_value := s\<rparr>) =
     (submit_js (p\<lparr>input_value := js_trim s\<rparr>))\<lparr>input_value := s\<rparr> \<and>
   submit_scripts (p\<lparr>input_value := s\<rparr>) =
     (submit_scripts (p\<lparr>input_value := js_trim s\<rparr>))\<lparr>input_value := s\<rparr> \<and>
   (isValidEmail (js_trim s) \<longrightarrow>
      fire_timer (length (timers p)) (submit_js (p\<lparr>input_value := s\<rparr>)) =
        fire_timer (length (timers p)) (submit_js (p\<lparr>input_value := js_trim s\<rparr>)) \<and>
      settle_request (length (requests p)) outcome (submit_scripts (p\<lparr>input_value := s\<rparr>)) =
        (settle_request (length (requests p)) outcome
           (submit_scripts (p\<lparr>input_value := js_trim s\<rparr>)))
          \<lparr>input_value := if chain_fulfilled outcome then [] else s\<rparr> \<and>
      map (\<lambda>r. body (fst r)) (requests (submit_scripts (p\<lparr>input_value := s\<rparr>))) =
        map (\<lambda>r. body (fst r)) (requests p) @ [JObject [(js ''email'', JString (js_trim s))]]) \<and>
   (list_all is_js_whitespace a \<and> list_all is_js_whitespace b \<and> isValidEmail e \<longrightarrow>
      js_trim (a @ e @ b) = e \<and>
      timers (submit_js (p\<lparr>input_value := a @ e @ b\<rparr>)) =
        timers p @ [(1000, SimulatedResponse (button_text p))] \<and>
      requests (submit_scripts (p\<lparr>input_value := a @ e @ b\<rparr>)) =
        requests p @ [(signup_request e, button_text p)])"
proof (intro conjI impI)
  show "submit_js (p\<lparr>input_value := s\<rparr>) =
     (submit_js (p\<lparr>input_value := js_trim s\<rparr>))\<lparr>input_value := s\<rparr>"
    by (rule submit_js_input)
  show "submit_scripts (p\<lparr>input_value := s\<rparr>) =
     (submit_scripts (p\<lparr>input_value := js_trim s\<rparr>))\<lparr>input_value := s\<rparr>"
    by (rule submit_scripts_input)
next
  assume v: "isValidEmail (js_trim s)"
  show "fire_timer (length (timers p)) (submit_js (p\<lparr>input_value := s\<rparr>)) =
        fire_timer (length (timers p)) (submit_js (p\<lparr>input_value := js_trim s\<rparr>))"
    using v by (rule completed_js_input)
  show "settle_request (length (requests p)) outcome (submit_scripts (p\<lparr>input_value := s\<rparr>)) =
        (settle_request (length (requests p)) outcome
           (submit_scripts (p\<lparr>input_value := js_trim s\<rparr>)))
          \<lparr>input_value := if chain_fulfilled outcome then [] else s\<rparr>"
    using v by (rule completed_scripts_input)
  show "map (\<lambda>r. body (fst r)) (requests (submit_scripts (p\<lparr>input_value := s\<rparr>))) =
        map (\<lambda>r. body (fst r)) (requests p) @ [JObject [(js ''email'', JString (js_trim s))]]"
    using v by (rule request_bodies)
next
  assume a: "list_all is_js_whitespace a \<and> list_all is_js_whitespace b \<and> isValidEmail e"
  then show t: "js_trim (a @ e @ b) = e"
    by (simp add: js_trim_valid_padded)
  from a t have v: "isValidEmail (js_trim (input_value (p\<lparr>input_value := a @ e @ b\<rparr>)))"
    by simp
  show "timers (submit_js (p\<lparr>input_value := a @ e @ b\<rparr>)) =
        timers p @ [(1000, SimulatedResponse (button_text p))]"
    by (simp add: submit_js_valid [OF v])
  show "requests (submit_scripts (p\<lparr>input_value := a @ e @ b\<rparr>)) =
        requests p @ [(signup_request e, button_text p)]"
    using t by (simp add: submit_scripts_valid [OF v])
qed

theorem submission_trims_witness:
  "map (\<lambda>r. body (fst r))
     (requests (submit_scripts (page_with_message (js ''  user@example.com '')))) =
     [JObject [(js ''email'', JString (js ''user@example.com''))]] \<and>
   submit_scripts (page_with_message (js ''  user@example.com '')) =
     (submit_scripts (page_with_message (js ''user@example.com'')))
       \<lparr>input_value := js ''  user@example.com ''\<rparr> \<and>
   js_trim (js ''  '' @ js ''user@example.com'' @ js '' '') = js ''user@example.com''"
proof -
  let ?p = "page_with_message []"
  let ?s = "js ''  user@example.com ''"
  have e1: "page_with_message ?s = ?p\<lparr>input_value := ?s\<rparr>"
    and e2: "page_with_message (js ''user@example.com'') =
      ?p\<lparr>input_value := js ''user@example.com''\<rparr>"
    by (simp_all add: page_with_message_def)
  have r: "requests ?p = []"
    by (simp add: page_with_message_def)
  have w: "list_all is_js_whitespace (js ''  '') \<and> list_all is_js_whitespace (js '' '') \<and>
      isValidEmail (js ''user@example.com'')"
    by (simp add: email_eval)
  note c = submission_trims [where p = ?p and s = ?s and outcome = NetworkError
      and a = "js ''  ''" and b = "js '' ''" and e = "js ''user@example.com''"]
  from c example_padded_valid
  have c3: "map (\<lambda>r. body (fst r)) (requests (submit_scripts (?p\<lparr>input_value := ?s\<rparr>))) =
      map (\<lambda>r. body (fst r)) (requests ?p) @
        [JObject [(js ''email'', JString (js_trim ?s))]]"
    by blast
  from c have c1: "submit_scripts (?p\<lparr>input_value := ?s\<rparr>) =
      (submit_scripts (?p\<lparr>input_value := js_trim ?s\<rparr>))\<lparr>input_value := ?s\<rparr>"
    by blast
  from c w have c4: "js_trim (js ''  '' @ js ''user@example.com'' @ js '' '') = js ''user@example.com''"
    by blast
  show ?thesis
    unfolding e1 e2 using c1 c3 c4 by (simp only: example_padded_trim r list.map append_Nil simp_thms)
qed

end
